theory Spec2Isabelle
  imports Complex_Main "HOL-Library.Product_Lexorder"
begin

section \<open>Calendar dates\<close>

text \<open>
  The price history is indexed by one timestamp per trading day: midnight of that day
  in the time zone of the index. An index entry is modelled by the number of its
  calendar day, counted from 1970-01-01, and two index entries compare as their day
  numbers do. The timestamp that the monthly schedule builds from a year, a month and
  a day, in the time zone of the index, is such a midnight too. A timestamp that is
  not a midnight arises in the weekly walk only and is modelled there as an instant
  (section on time zones). The calendar is the proleptic Gregorian one.
\<close>

type_synonym date = int

definition is_leap :: "int \<Rightarrow> bool" where
  "is_leap y = (y mod 4 = 0 \<and> (y mod 100 \<noteq> 0 \<or> y mod 400 = 0))"

text \<open>\<open>calendar.monthrange(year, month)[1]\<close>: the number of days of a month.\<close>

definition monthrange_days :: "int \<Rightarrow> int \<Rightarrow> int" where
  "monthrange_days y m =
     (if m = 2 then (if is_leap y then 29 else 28)
      else if m = 4 \<or> m = 6 \<or> m = 9 \<or> m = 11 then 30 else 31)"

text \<open>The day number of the calendar date \<open>y\<close>-\<open>m\<close>-\<open>d\<close> (years counted from March).\<close>

definition days_from_civil :: "int \<Rightarrow> int \<Rightarrow> int \<Rightarrow> date" where
  "days_from_civil y m d =
     (let y' = (if m \<le> 2 then y - 1 else y);
          era = y' div 400;
          yoe = y' mod 400;
          mp = (if m > 2 then m - 3 else m + 9);
          doy = (153 * mp + 2) div 5 + d - 1;
          doe = yoe * 365 + yoe div 4 - yoe div 100 + doy
      in era * 146097 + doe - 719468)"

text \<open>The calendar date (year, month, day) of a day number.\<close>

definition civil_from_days :: "date \<Rightarrow> int \<times> int \<times> int" where
  "civil_from_days z =
     (let z' = z + 719468;
          era = z' div 146097;
          doe = z' mod 146097;
          yoe = (doe - doe div 1460 + doe div 36524 - doe div 146096) div 365;
          doy = doe - (365 * yoe + yoe div 4 - yoe div 100);
          mp = (5 * doy + 2) div 153;
          d = doy - (153 * mp + 2) div 5 + 1;
          m = (if mp < 10 then mp + 3 else mp - 9);
          y = yoe + era * 400
      in (if m \<le> 2 then y + 1 else y, m, d))"

text \<open>\<open>df.index.year\<close> and \<open>df.index.month\<close>, entry by entry.\<close>

definition index_year :: "date \<Rightarrow> int" where
  "index_year z = fst (civil_from_days z)"

definition index_month :: "date \<Rightarrow> int" where
  "index_month z = fst (snd (civil_from_days z))"

text \<open>\<open>Timestamp.weekday()\<close>: 0 is Monday, 6 is Sunday; 1970-01-01 was a Thursday.\<close>

definition weekday :: "date \<Rightarrow> int" where
  "weekday z = (z + 3) mod 7"

section \<open>Errors\<close>

text \<open>
  The exceptions the modelled code can raise: \<open>ValueError\<close> from \<open>int()\<close>,
  \<open>time.strptime\<close> and the timestamp constructor, \<open>OverflowError\<close> from the
  timestamp constructor, \<open>IndexError\<close> from \<open>df.index[0]\<close>, and the
  \<open>ValueError("No historical price data found ...")\<close> that \<open>main\<close> raises,
  kept apart from the other value errors as \<open>NoHistoricalData\<close>.
\<close>

datatype error = ValueError | OverflowError | IndexError | NoHistoricalData

text \<open>
  \<open>pd.Timestamp(year=year, month=month, day=day)\<close> for a year and month taken from
  the index. The constructor raises \<open>ValueError\<close> when the month has no such day
  and \<open>OverflowError\<close> when the day does not fit a C \<open>int\<close>.
\<close>

definition Timestamp :: "int \<Rightarrow> int \<Rightarrow> int \<Rightarrow> error + date" where
  "Timestamp year month day =
     (if day < - 2147483648 \<or> 2147483647 < day then Inl OverflowError
      else if 1 \<le> day \<and> day \<le> monthrange_days year month
           then Inr (days_from_civil year month day)
      else Inl ValueError)"

section \<open>Roll-forward\<close>

text \<open>
  \<open>get_next_trading_day\<close>: the boolean mask \<open>trading_days >= target_date\<close> keeps
  the entries of the index in their order; the first kept entry is returned, and
  \<open>None\<close> when nothing is kept.
\<close>

definition get_next_trading_day :: "date \<Rightarrow> date list \<Rightarrow> date option" where
  "get_next_trading_day target_date trading_days =
     (case filter (\<lambda>d. target_date \<le> d) trading_days of
        [] \<Rightarrow> None
      | d # _ \<Rightarrow> Some d)"

section \<open>Schedule parameters\<close>


definition is_space :: "char \<Rightarrow> bool" where
  "is_space c = (let n = (of_char c :: nat) in (9 \<le> n \<and> n \<le> 13) \<or> n = 32)"

definition is_digit :: "char \<Rightarrow> bool" where
  "is_digit c = (let n = (of_char c :: nat) in 48 \<le> n \<and> n \<le> 57)"

definition strip :: "string \<Rightarrow> string" where
  "strip s = rev (dropWhile is_space (rev (dropWhile is_space s)))"

fun digits_ok :: "string \<Rightarrow> bool" where
  "digits_ok [] = False"
| "digits_ok [c] = is_digit c"
| "digits_ok (c # c' # cs) =
     (is_digit c \<and> (if c' = CHR ''_'' then digits_ok cs else digits_ok (c' # cs)))"

definition digits_value :: "string \<Rightarrow> int" where
  "digits_value s = foldl (\<lambda>acc c. 10 * acc + (of_char c - 48)) 0 (filter is_digit s)"

definition py_int :: "string \<Rightarrow> int option" where
  "py_int s =
     (let t = strip s;
          neg = (t \<noteq> [] \<and> hd t = CHR ''-'');
          body = (if t \<noteq> [] \<and> (hd t = CHR ''-'' \<or> hd t = CHR ''+'') then tl t else t)
      in if digits_ok body
         then Some (if neg then - digits_value body else digits_value body)
         else None)"

text \<open>
  \<open>time.strptime(freq_val, '%A').tm_wday\<close>: the whole string must be a full English
  weekday name, in any letter case; the result is 0 for Monday up to 6 for Sunday.
  On an ASCII string \<open>None\<close> stands for \<open>ValueError\<close>.
\<close>

definition lower :: "char \<Rightarrow> char" where
  "lower c = (let n = (of_char c :: nat) in if 65 \<le> n \<and> n \<le> 90 then char_of (n + 32) else c)"

definition weekday_names :: "(string \<times> int) list" where
  "weekday_names =
     [(''monday'', 0), (''tuesday'', 1), (''wednesday'', 2), (''thursday'', 3),
      (''friday'', 4), (''saturday'', 5), (''sunday'', 6)]"

definition strptime_wday :: "string \<Rightarrow> int option" where
  "strptime_wday s = map_of weekday_names (map lower s)"

section \<open>Investment dates\<close>

text \<open>
  \<open>df.groupby([df.index.year, df.index.month])\<close> yields one group per (year, month)
  pair that occurs in the index, in ascending order of the pair.
\<close>

definition groupby_year_month :: "date list \<Rightarrow> (int \<times> int) list" where
  "groupby_year_month trading_days =
     sort (remdups (map (\<lambda>d. (index_year d, index_month d)) trading_days))"

text \<open>
  The target date of one month: the requested day, or the last day of the month when
  the timestamp constructor raises \<open>ValueError\<close>. Any other exception propagates.
\<close>

definition target_of_month :: "int \<Rightarrow> int \<Rightarrow> int \<Rightarrow> error + date" where
  "target_of_month year month day_of_month =
     (case Timestamp year month day_of_month of
        Inl ValueError \<Rightarrow> Timestamp year month (monthrange_days year month)
      | r \<Rightarrow> r)"

text \<open>
  \<open>if actual_date is not None: if actual_date not in investment_dates:
  investment_dates.append(actual_date)\<close>, shared by both schedules.
\<close>

definition append_if_new :: "date option \<Rightarrow> date list \<Rightarrow> date list" where
  "append_if_new actual_date investment_dates =
     (case actual_date of
        None \<Rightarrow> investment_dates
      | Some a \<Rightarrow> if a \<in> set investment_dates then investment_dates
                  else investment_dates @ [a])"

text \<open>The body of the monthly loop, over the remaining groups.\<close>

fun monthly_loop :: "int \<Rightarrow> date list \<Rightarrow> (int \<times> int) list \<Rightarrow> date list \<Rightarrow> error + date list" where
  "monthly_loop day_of_month trading_days [] investment_dates = Inr investment_dates"
| "monthly_loop day_of_month trading_days ((year, month) # groups) investment_dates =
     (case target_of_month year month day_of_month of
        Inl e \<Rightarrow> Inl e
      | Inr target_date \<Rightarrow>
          monthly_loop day_of_month trading_days groups
            (append_if_new (get_next_trading_day target_date trading_days) investment_dates))"

subsection \<open>Time zones and the weekly walk\<close>

text \<open>
  The weekly walk adds \<open>timedelta(days=1)\<close> to a timestamp of the index. On a
  timestamp with a time zone this adds 24 hours of absolute time, which is not always
  one calendar day: after a change of the UTC offset the walk no longer stands at local
  midnight. The walk variable is therefore an instant, in seconds since 1970-01-01
  00:00 UTC, and the time zone of the index, \<open>df.index.tz\<close>, is a parameter of the
  model: \<open>tz u\<close> is the UTC offset, in seconds, in force at the instant \<open>u\<close>
  (\<open>tzinfo.utcoffset\<close>). An index without a time zone behaves as the zone of
  offset 0.
\<close>

type_synonym tzinfo = "int \<Rightarrow> int"

definition fixed_offset :: "int \<Rightarrow> tzinfo" where
  "fixed_offset c = (\<lambda>u. c)"

text \<open>
  The instant of an index entry, local midnight of the day \<open>d\<close>. The offset in force
  at that midnight is read at the instant that the offset at UTC midnight of the day
  suggests; this is the midnight itself unless the offset changes in the hours between.
\<close>

definition instant_of_midnight :: "tzinfo \<Rightarrow> date \<Rightarrow> int" where
  "instant_of_midnight tz d = (let w = d * 86400 in w - tz (w - tz w))"

text \<open>
  The zone America/New_York around its change to daylight saving time of 14 March 2021,
  07:00 UTC (02:00 local time): UTC-5 before, UTC-4 from then on.
\<close>

definition new_york_2021 :: tzinfo where
  "new_york_2021 u = (if u < 1615705200 then - 18000 else - 14400)"

text \<open>\<open>Timestamp.weekday()\<close> of an instant: the weekday of its local calendar day.\<close>

definition instant_weekday :: "tzinfo \<Rightarrow> int \<Rightarrow> int" where
  "instant_weekday tz u = weekday ((u + tz u) div 86400)"

text \<open>
  \<open>get_next_trading_day(current_date, trading_days)\<close> in the weekly walk: the mask
  compares the index entries with the walk variable as instants. The entry found is
  written as its day number again.
\<close>

definition next_trading_day_from_instant :: "tzinfo \<Rightarrow> int \<Rightarrow> date list \<Rightarrow> date option" where
  "next_trading_day_from_instant tz current_date trading_days =
     (case get_next_trading_day current_date (map (instant_of_midnight tz) trading_days) of
        None \<Rightarrow> None
      | Some u \<Rightarrow> find (\<lambda>d. instant_of_midnight tz d = u) trading_days)"

text \<open>
  The weekly walk: \<open>while current_date <= end_date\<close>, 24 hours at a time
  (\<open>current_date += timedelta(days=1)\<close>).
\<close>

function weekly_loop ::
  "tzinfo \<Rightarrow> int \<Rightarrow> date list \<Rightarrow> int \<Rightarrow> int \<Rightarrow> date list \<Rightarrow> date list" where
  "weekly_loop tz target_weekday trading_days end_date current_date investment_dates =
     (if current_date \<le> end_date
      then weekly_loop tz target_weekday trading_days end_date (current_date + 86400)
             (if instant_weekday tz current_date = target_weekday
              then append_if_new
                     (next_trading_day_from_instant tz current_date trading_days)
                     investment_dates
              else investment_dates)
      else investment_dates)"
  by pat_completeness auto
termination
  by (relation "measure (\<lambda>(tz, w, tds, e, c, acc). nat (e + 1 - c))") auto

declare weekly_loop.simps [simp del]

text \<open>
  The part of \<open>calculate_sip\<close> that determines the investment dates from the
  frequency type, the frequency value and the index of the cleaned table, whose time
  zone is \<open>tz\<close>. A frequency type other than \<open>monthly\<close> and \<open>weekly\<close> leaves the
  list empty. The weekly walk starts at \<open>df.index[0]\<close> and ends at \<open>df.index[-1]\<close>.
\<close>

definition determine_investment_dates ::
  "tzinfo \<Rightarrow> string \<Rightarrow> string \<Rightarrow> date list \<Rightarrow> error + date list" where
  "determine_investment_dates tz freq_type freq_val trading_days =
     (if freq_type = ''monthly'' then
        (case py_int freq_val of
           None \<Rightarrow> Inl ValueError
         | Some day_of_month \<Rightarrow>
             monthly_loop day_of_month trading_days (groupby_year_month trading_days) [])
      else if freq_type = ''weekly'' then
        (case strptime_wday freq_val of
           None \<Rightarrow> Inl ValueError
         | Some target_weekday \<Rightarrow>
             (case trading_days of
                [] \<Rightarrow> Inl IndexError
              | first_day # _ \<Rightarrow>
                  Inr (weekly_loop tz target_weekday trading_days
                         (instant_of_midnight tz (last trading_days))
                         (instant_of_midnight tz first_day) [])))
      else Inr [])"

section \<open>Floating-point values\<close>

text \<open>
  Column entries are floating-point numbers. Rounding is not modelled: a finite value
  is an exact real. The special values that a division by zero creates are kept,
  because the code relies on them (\<open>fillna\<close>): the two infinities and NaN. The
  sign of a zero is not modelled: \<open>Fin 0\<close> stands for the float 0.0, and a quotient by
  \<open>Fin 0\<close> is the quotient by 0.0. The float -0.0 is not among the values of the
  model; the code's quotient of a non-zero number by -0.0 is the infinity of the
  opposite sign.
\<close>

datatype fl = Fin real | PInf | NInf | NaN

fun fl_neg :: "fl \<Rightarrow> fl" where
  "fl_neg (Fin x) = Fin (- x)"
| "fl_neg PInf = NInf"
| "fl_neg NInf = PInf"
| "fl_neg NaN = NaN"

fun fl_add :: "fl \<Rightarrow> fl \<Rightarrow> fl" where
  "fl_add (Fin a) (Fin b) = Fin (a + b)"
| "fl_add (Fin a) PInf = PInf"
| "fl_add (Fin a) NInf = NInf"
| "fl_add PInf (Fin b) = PInf"
| "fl_add PInf PInf = PInf"
| "fl_add NInf (Fin b) = NInf"
| "fl_add NInf NInf = NInf"
| "fl_add PInf NInf = NaN"
| "fl_add NInf PInf = NaN"
| "fl_add NaN y = NaN"
| "fl_add x NaN = NaN"

definition fl_sub :: "fl \<Rightarrow> fl \<Rightarrow> fl" where
  "fl_sub x y = fl_add x (fl_neg y)"

text \<open>An infinity times or divided by a finite value: the sign follows the sign rule.\<close>

definition signed_inf :: "bool \<Rightarrow> fl" where
  "signed_inf positive = (if positive then PInf else NInf)"

fun fl_mul :: "fl \<Rightarrow> fl \<Rightarrow> fl" where
  "fl_mul (Fin a) (Fin b) = Fin (a * b)"
| "fl_mul (Fin a) PInf = (if a = 0 then NaN else signed_inf (0 < a))"
| "fl_mul (Fin a) NInf = (if a = 0 then NaN else signed_inf (a < 0))"
| "fl_mul PInf (Fin b) = (if b = 0 then NaN else signed_inf (0 < b))"
| "fl_mul NInf (Fin b) = (if b = 0 then NaN else signed_inf (b < 0))"
| "fl_mul PInf PInf = PInf"
| "fl_mul NInf NInf = PInf"
| "fl_mul PInf NInf = NInf"
| "fl_mul NInf PInf = NInf"
| "fl_mul NaN y = NaN"
| "fl_mul x NaN = NaN"

fun fl_div :: "fl \<Rightarrow> fl \<Rightarrow> fl" where
  "fl_div (Fin a) (Fin b) =
     (if b \<noteq> 0 then Fin (a / b)
      else if a = 0 then NaN
      else signed_inf (0 < a))"
| "fl_div (Fin a) PInf = Fin 0"
| "fl_div (Fin a) NInf = Fin 0"
| "fl_div PInf (Fin b) = signed_inf (0 \<le> b)"
| "fl_div NInf (Fin b) = signed_inf (b < 0)"
| "fl_div PInf PInf = NaN"
| "fl_div PInf NInf = NaN"
| "fl_div NInf PInf = NaN"
| "fl_div NInf NInf = NaN"
| "fl_div NaN y = NaN"
| "fl_div x NaN = NaN"

text \<open>The order of floating-point values; NaN compares with nothing.\<close>

fun fl_le :: "fl \<Rightarrow> fl \<Rightarrow> bool" where
  "fl_le (Fin a) (Fin b) = (a \<le> b)"
| "fl_le NaN y = False"
| "fl_le x NaN = False"
| "fl_le NInf y = True"
| "fl_le x PInf = True"
| "fl_le x NInf = False"
| "fl_le PInf y = False"

text \<open>\<open>Series.fillna(0)\<close>, entry by entry.\<close>

fun fillna0 :: "fl \<Rightarrow> fl" where
  "fillna0 NaN = Fin 0"
| "fillna0 x = x"

text \<open>
  \<open>Series.cumsum()\<close> skips NaN entries: such an entry gives NaN in the result and
  leaves the running sum as it was.
\<close>

fun cumsum_from :: "fl \<Rightarrow> fl list \<Rightarrow> fl list" where
  "cumsum_from acc [] = []"
| "cumsum_from acc (x # xs) =
     (if x = NaN then NaN # cumsum_from acc xs
      else fl_add acc x # cumsum_from (fl_add acc x) xs)"

definition cumsum :: "fl list \<Rightarrow> fl list" where
  "cumsum xs = cumsum_from (Fin 0) xs"

section \<open>The simulation\<close>

text \<open>
  The input table is a list of rows in index order: the date and the \<open>Close\<close> entry,
  \<open>None\<close> for a missing (NaN) entry, a finite real number otherwise (a close of
  -0.0 or of an infinity is not among the inputs of the model). The time zone of its
  index is passed beside the table. \<open>df[['Close']].dropna()\<close> keeps the rows whose
  entry is present.
\<close>

type_synonym price_table = "(date \<times> real option) list"

fun dropna :: "price_table \<Rightarrow> (date \<times> real) list" where
  "dropna [] = []"
| "dropna ((d, None) # rows) = dropna rows"
| "dropna ((d, Some c) # rows) = (d, c) # dropna rows"

text \<open>A row of the table once the tracking columns are initialised.\<close>

record tracked_row =
  Date :: date
  Close :: real
  Invested_Today :: fl
  Shares_Bought_Today :: fl

text \<open>A row of the returned table.\<close>

record result_row = tracked_row +
  Total_Invested :: fl
  Total_Shares :: fl
  Portfolio_Value :: fl
  Profit :: fl
  Profit_Pct :: fl

definition init_tracking :: "(date \<times> real) list \<Rightarrow> tracked_row list" where
  "init_tracking rows =
     map (\<lambda>(d, c). \<lparr>Date = d, Close = c, Invested_Today = Fin 0,
                     Shares_Bought_Today = Fin 0\<rparr>) rows"

text \<open>
  One contribution to one row: \<open>Invested_Today += amount\<close> and
  \<open>Shares_Bought_Today += amount / Close\<close>.
\<close>

definition contribute :: "real \<Rightarrow> tracked_row \<Rightarrow> tracked_row" where
  "contribute amount r =
     r\<lparr>Invested_Today := fl_add (Invested_Today r) (Fin amount),
       Shares_Bought_Today :=
         fl_add (Shares_Bought_Today r) (fl_div (Fin amount) (Fin (Close r)))\<rparr>"

text \<open>
  One round of the loop that applies the investments: \<open>df.loc[date, ...] += ...\<close>
  updates every row labelled \<open>date\<close>, when the index has that label.
\<close>

definition invest_on :: "real \<Rightarrow> date \<Rightarrow> tracked_row list \<Rightarrow> tracked_row list" where
  "invest_on amount date df =
     (if date \<in> set (map Date df)
      then map (\<lambda>r. if Date r = date then contribute amount r else r) df
      else df)"

fun apply_investments :: "real \<Rightarrow> date list \<Rightarrow> tracked_row list \<Rightarrow> tracked_row list" where
  "apply_investments amount [] df = df"
| "apply_investments amount (date # dates) df =
     apply_investments amount dates (invest_on amount date df)"

text \<open>The derived columns of one row, from the row and its two running totals.\<close>

definition derive_row :: "tracked_row \<Rightarrow> fl \<Rightarrow> fl \<Rightarrow> result_row" where
  "derive_row r total_invested total_shares =
     (let portfolio_value = fl_mul total_shares (Fin (Close r));
          profit = fl_sub portfolio_value total_invested;
          profit_pct = fl_mul (fl_div profit total_invested) (Fin 100)
      in \<lparr>Date = Date r, Close = Close r, Invested_Today = Invested_Today r,
          Shares_Bought_Today = Shares_Bought_Today r,
          Total_Invested = total_invested, Total_Shares = total_shares,
          Portfolio_Value = portfolio_value, Profit = profit,
          Profit_Pct = fillna0 profit_pct\<rparr>)"

definition add_totals :: "tracked_row list \<Rightarrow> result_row list" where
  "add_totals df =
     map (\<lambda>(r, ti, ts). derive_row r ti ts)
       (zip df (zip (cumsum (map Invested_Today df)) (cumsum (map Shares_Bought_Today df))))"

text \<open>\<open>calculate_sip\<close>, on the table \<open>df\<close> whose index has the time zone \<open>tz\<close>.\<close>

definition calculate_sip ::
  "tzinfo \<Rightarrow> price_table \<Rightarrow> real \<Rightarrow> string \<Rightarrow> string \<Rightarrow> error + result_row list" where
  "calculate_sip tz df amount freq_type freq_val =
     (let df' = init_tracking (dropna df);
          trading_days = map Date df'
      in case determine_investment_dates tz freq_type freq_val trading_days of
           Inl e \<Rightarrow> Inl e
         | Inr investment_dates \<Rightarrow>
             Inr (add_totals (apply_investments amount investment_dates df')))"

text \<open>
  The step of \<open>main\<close> that processes the fetched price history: an empty history is
  refused before \<open>calculate_sip\<close> is called.
\<close>

definition main_process_data ::
  "tzinfo \<Rightarrow> price_table \<Rightarrow> real \<Rightarrow> string \<Rightarrow> string \<Rightarrow> error + result_row list" where
  "main_process_data tz hist_data amount freq_type freq_val =
     (if hist_data = [] then Inl NoHistoricalData
      else calculate_sip tz hist_data amount freq_type freq_val)"

section \<open>The resolver as the specification words it\<close>

text \<open>The calendar months, as (year, month) pairs, that hold at least one trading day.\<close>

definition represented_months :: "date list \<Rightarrow> (int \<times> int) set" where
  "represented_months trading_days = (\<lambda>d. (index_year d, index_month d)) ` set trading_days"

text \<open>
  The target date of a month for a day of month between 1 and 31: that day, or the
  last calendar day of the month when the month is shorter.
\<close>

definition monthly_target :: "int \<Rightarrow> int \<Rightarrow> int \<Rightarrow> date" where
  "monthly_target year month day_of_month =
     (if day_of_month \<le> monthrange_days year month
      then days_from_civil year month day_of_month
      else days_from_civil year month (monthrange_days year month))"

text \<open>The earliest trading day on or after a target, if there is one.\<close>

definition earliest_on_or_after :: "date \<Rightarrow> date list \<Rightarrow> date option" where
  "earliest_on_or_after target trading_days =
     (if \<exists>d \<in> set trading_days. target \<le> d
      then Some (Min {d \<in> set trading_days. target \<le> d})
      else None)"

text \<open>A list without its repetitions: each element stays at its first occurrence.\<close>

function keep_first :: "'a list \<Rightarrow> 'a list" where
  "keep_first [] = []"
| "keep_first (x # xs) = x # keep_first (filter (\<lambda>y. y \<noteq> x) xs)"
  by pat_completeness auto
termination
  by (relation "measure length") (auto simp: less_Suc_eq_le)

definition monthly_spec :: "int \<Rightarrow> date list \<Rightarrow> date list" where
  "monthly_spec day_of_month trading_days =
     keep_first
       (List.map_filter
          (\<lambda>(year, month).
             earliest_on_or_after (monthly_target year month day_of_month) trading_days)
          (sorted_list_of_set (represented_months trading_days)))"

definition weekly_spec :: "int \<Rightarrow> date list \<Rightarrow> date list" where
  "weekly_spec target_weekday trading_days =
     keep_first
       (List.map_filter (\<lambda>d. earliest_on_or_after d trading_days)
          (filter (\<lambda>d. weekday d = target_weekday) [hd trading_days..last trading_days]))"

section \<open>Properties of the roll-forward\<close>

lemma get_next_trading_day_None_iff:
  "get_next_trading_day t tds = None \<longleftrightarrow> (\<forall>d \<in> set tds. d < t)"
proof -
  have "get_next_trading_day t tds = None \<longleftrightarrow> filter (\<lambda>d. t \<le> d) tds = []"
    by (simp add: get_next_trading_day_def split: list.splits)
  then show ?thesis by (simp add: filter_empty_conv not_le)
qed

lemma get_next_trading_day_Some_mem:
  assumes "get_next_trading_day t tds = Some a"
  shows "a \<in> set tds" and "t \<le> a"
proof -
  from assms obtain rest where f: "filter (\<lambda>d. t \<le> d) tds = a # rest"
    by (auto simp: get_next_trading_day_def split: list.splits)
  then have "a \<in> set (filter (\<lambda>d. t \<le> d) tds)" by simp
  then show "a \<in> set tds" and "t \<le> a" by simp_all
qed

lemma get_next_trading_day_least:
  assumes "sorted tds" and "get_next_trading_day t tds = Some a"
    and "d \<in> set tds" and "t \<le> d"
  shows "a \<le> d"
proof -
  from assms(2) obtain rest where f: "filter (\<lambda>d. t \<le> d) tds = a # rest"
    by (auto simp: get_next_trading_day_def split: list.splits)
  have "sorted (filter (\<lambda>d. t \<le> d) tds)" using assms(1) by (rule sorted_wrt_filter)
  with f have "\<forall>x \<in> set rest. a \<le> x" by simp
  moreover have "d \<in> set (a # rest)" using assms(3,4) f[symmetric] by simp
  ultimately show ?thesis by auto
qed

lemma get_next_trading_day_self:
  assumes "sorted tds" and "t \<in> set tds"
  shows "get_next_trading_day t tds = Some t"
proof (cases "get_next_trading_day t tds")
  case None
  with assms(2) show ?thesis by (auto simp: get_next_trading_day_None_iff)
next
  case (Some a)
  from get_next_trading_day_Some_mem[OF Some] have "t \<le> a" by simp
  moreover from get_next_trading_day_least[OF assms(1) Some assms(2)] have "a \<le> t" by simp
  ultimately show ?thesis using Some by simp
qed

text \<open>
  C7. On an ascending list of trading days, the roll-forward returns no date exactly
  when every trading day is before the target; otherwise it returns a trading day on
  or after the target that is not later than any other such trading day. A target
  that is itself a trading day is returned unchanged.
\<close>

theorem get_next_trading_day_earliest:
  assumes "sorted trading_days"
  shows "(case get_next_trading_day target trading_days of
            None \<Rightarrow> \<forall>d \<in> set trading_days. d < target
          | Some a \<Rightarrow> a \<in> set trading_days \<and> target \<le> a \<and>
                       (\<forall>d \<in> set trading_days. target \<le> d \<longrightarrow> a \<le> d)) \<and>
         (target \<in> set trading_days \<longrightarrow>
            get_next_trading_day target trading_days = Some target)"
proof (intro conjI impI)
  show "case get_next_trading_day target trading_days of
            None \<Rightarrow> \<forall>d \<in> set trading_days. d < target
          | Some a \<Rightarrow> a \<in> set trading_days \<and> target \<le> a \<and>
                       (\<forall>d \<in> set trading_days. target \<le> d \<longrightarrow> a \<le> d)"
  proof (cases "get_next_trading_day target trading_days")
    case None
    then have "\<forall>d \<in> set trading_days. d < target"
      by (simp add: get_next_trading_day_None_iff)
    with None show ?thesis by simp
  next
    case (Some a)
    then show ?thesis
      using get_next_trading_day_Some_mem[OF Some] get_next_trading_day_least[OF assms Some]
      by simp
  qed
next
  assume "target \<in> set trading_days"
  with assms show "get_next_trading_day target trading_days = Some target"
    by (rule get_next_trading_day_self)
qed

theorem get_next_trading_day_earliest_witness:
  "sorted [18659, 18687, 18716 :: int] \<and> (18687 :: int) \<in> set [18659, 18687, 18716] \<and>
   get_next_trading_day 18687 [18659, 18687, 18716] = Some 18687"
  using get_next_trading_day_earliest [of "[18659, 18687, 18716]" 18687]
  by simp

section \<open>Properties of the resolver\<close>

lemma set_keep_first: "set (keep_first xs) = set xs"
  by (induction xs rule: keep_first.induct) auto

lemma distinct_keep_first: "distinct (keep_first xs)"
  by (induction xs rule: keep_first.induct) (auto simp: set_keep_first)

lemma keep_first_distinct: "distinct xs \<Longrightarrow> keep_first xs = xs"
proof (induction xs)
  case (Cons x xs)
  then have "filter (\<lambda>y. y \<noteq> x) xs = xs" by (auto simp: filter_id_conv)
  with Cons show ?case by simp
qed simp

lemma set_append_if_new:
  "set (append_if_new a acc) = set acc \<union> set_option a"
  by (cases a) (auto simp: append_if_new_def)

lemma distinct_append_if_new:
  "distinct acc \<Longrightarrow> distinct (append_if_new a acc)"
  by (cases a) (auto simp: append_if_new_def)

lemma length_append_if_new:
  "length (append_if_new a acc) \<le> Suc (length acc)"
  by (cases a) (auto simp: append_if_new_def)

text \<open>Running the shared loop body over a list of targets.\<close>

lemma fold_append_if_new:
  "fold (\<lambda>x. append_if_new (f x)) xs acc =
     acc @ keep_first (filter (\<lambda>a. a \<notin> set acc) (List.map_filter f xs))"
proof (induction xs arbitrary: acc)
  case Nil
  show ?case by (simp add: List.map_filter_simps)
next
  case (Cons x xs)
  show ?case
  proof (cases "f x")
    case None
    then show ?thesis using Cons.IH[of acc]
      by (simp add: append_if_new_def List.map_filter_simps)
  next
    case (Some a)
    show ?thesis
    proof (cases "a \<in> set acc")
      case True
      with Some show ?thesis using Cons.IH[of acc]
        by (simp add: append_if_new_def List.map_filter_simps)
    next
      case False
      have "filter (\<lambda>y. y \<noteq> a) (filter (\<lambda>a. a \<notin> set acc) (List.map_filter f xs)) =
            filter (\<lambda>b. b \<notin> set (acc @ [a])) (List.map_filter f xs)"
        by (auto intro: filter_cong)
      with False Some show ?thesis using Cons.IH[of "acc @ [a]"]
        by (simp add: append_if_new_def List.map_filter_simps)
    qed
  qed
qed

lemma get_next_trading_day_earliest_on_or_after:
  assumes "sorted tds"
  shows "get_next_trading_day t tds = earliest_on_or_after t tds"
proof (cases "get_next_trading_day t tds")
  case None
  then show ?thesis
    by (auto simp: earliest_on_or_after_def get_next_trading_day_None_iff)
next
  case (Some a)
  have mem: "a \<in> {d \<in> set tds. t \<le> d}"
    using get_next_trading_day_Some_mem[OF Some] by simp
  have "Min {d \<in> set tds. t \<le> d} = a"
  proof (rule Min_eqI)
    show "finite {d \<in> set tds. t \<le> d}" by simp
    show "a \<in> {d \<in> set tds. t \<le> d}" by (rule mem)
    fix y assume "y \<in> {d \<in> set tds. t \<le> d}"
    then show "a \<le> y" using get_next_trading_day_least[OF assms Some] by simp
  qed
  with Some mem show ?thesis by (auto simp: earliest_on_or_after_def)
qed

lemma groupby_year_month_sorted_list:
  "groupby_year_month tds = sorted_list_of_set (represented_months tds)"
  by (simp add: groupby_year_month_def represented_months_def
      sorted_list_of_set_sort_remdups[symmetric])

lemma monthrange_days_ge: "28 \<le> monthrange_days y m"
  by (simp add: monthrange_days_def)

lemma monthrange_days_le: "monthrange_days y m \<le> 31"
  by (simp add: monthrange_days_def)

lemma target_of_month_valid:
  assumes "1 \<le> day" and "day \<le> 31"
  shows "target_of_month y m day = Inr (monthly_target y m day)"
  using assms monthrange_days_ge[of y m] monthrange_days_le[of y m]
  by (simp add: target_of_month_def Timestamp_def monthly_target_def)

lemma monthly_loop_valid:
  assumes "1 \<le> day" and "day \<le> 31"
  shows "monthly_loop day tds groups acc =
     Inr (fold (\<lambda>(y, m). append_if_new (get_next_trading_day (monthly_target y m day) tds))
            groups acc)"
  by (induction groups arbitrary: acc) (auto simp: target_of_month_valid[OF assms])

lemma find_self: "x \<in> set xs \<Longrightarrow> find (\<lambda>d. d = x) xs = Some x"
  by (induction xs) auto

lemma next_trading_day_from_instant_mem:
  assumes "next_trading_day_from_instant tz u tds = Some a"
  shows "a \<in> set tds"
proof -
  from assms obtain v where "find (\<lambda>d. instant_of_midnight tz d = v) tds = Some a"
    by (auto simp: next_trading_day_from_instant_def split: option.splits)
  then show ?thesis by (auto simp: find_Some_iff)
qed

lemma instant_of_midnight_fixed_offset:
  "instant_of_midnight (fixed_offset c) d = d * 86400 - c"
  by (simp add: instant_of_midnight_def fixed_offset_def)

lemma instant_weekday_fixed_offset:
  "instant_weekday (fixed_offset c) (d * 86400 - c) = weekday d"
  by (simp add: instant_weekday_def fixed_offset_def)

text \<open>In a zone of fixed offset the walk stays at midnight and rolls forward by days.\<close>

lemma next_trading_day_from_instant_fixed_offset:
  "next_trading_day_from_instant (fixed_offset c) (d * 86400 - c) tds =
     get_next_trading_day d tds"
proof -
  let ?f = "\<lambda>d'. d' * 86400 - c"
  have m: "map (instant_of_midnight (fixed_offset c)) tds = map ?f tds"
    by (simp add: instant_of_midnight_fixed_offset)
  have f: "filter (\<lambda>u. d * 86400 - c \<le> u) (map ?f tds) = map ?f (filter (\<lambda>d'. d \<le> d') tds)"
    by (simp add: filter_map o_def)
  show ?thesis
  proof (cases "filter (\<lambda>d'. d \<le> d') tds")
    case Nil
    with f show ?thesis
      by (simp add: next_trading_day_from_instant_def get_next_trading_day_def m)
  next
    case (Cons x rest)
    then have "x \<in> set (filter (\<lambda>d'. d \<le> d') tds)" by simp
    then have x: "x \<in> set tds" by simp
    have "find (\<lambda>d'. instant_of_midnight (fixed_offset c) d' = ?f x) tds =
          find (\<lambda>d'. d' = x) tds"
      by (simp add: instant_of_midnight_fixed_offset)
    with find_self[OF x] Cons f show ?thesis
      by (simp add: next_trading_day_from_instant_def get_next_trading_day_def m)
  qed
qed

lemma weekly_loop_fixed_offset:
  "weekly_loop (fixed_offset c) w tds (e * 86400 - c) (d * 86400 - c) acc =
     fold (\<lambda>d. append_if_new (get_next_trading_day d tds))
       (filter (\<lambda>d. weekday d = w) [d..e]) acc"
proof (induction "nat (e + 1 - d)" arbitrary: d acc)
  case 0
  then have "\<not> d \<le> e" by simp
  then show ?case
    by (simp add: weekly_loop.simps[of _ w tds "e * 86400 - c" "d * 86400 - c" acc])
next
  case (Suc n)
  then have le: "d \<le> e" and n: "n = nat (e + 1 - (d + 1))" by simp_all
  then have upto: "[d..e] = d # [d + 1..e]" by (simp add: upto_rec1)
  have next_day: "d * 86400 - c + 86400 = (d + 1) * 86400 - c" by simp
  show ?case
    unfolding weekly_loop.simps[of _ w tds "e * 86400 - c" "d * 86400 - c" acc]
      next_day upto
    using le Suc.hyps(1)[OF n]
    by (simp add: instant_weekday_fixed_offset next_trading_day_from_instant_fixed_offset)
qed

lemma monthly_loop_invariant:
  "monthly_loop day tds groups acc = Inr res \<Longrightarrow>
     set res \<subseteq> set acc \<union> set tds \<and>
     (distinct acc \<longrightarrow> distinct res) \<and>
     length res \<le> length acc + length groups \<and>
     (\<forall>a \<in> set res. a \<in> set acc \<or>
        (\<exists>(y, m) \<in> set groups. \<exists>t. target_of_month y m day = Inr t \<and>
            get_next_trading_day t tds = Some a))"
proof (induction groups arbitrary: acc)
  case Nil
  then show ?case by auto
next
  case (Cons g groups)
  obtain y m where g: "g = (y, m)" by (cases g)
  from Cons.prems g obtain t where
    t: "target_of_month y m day = Inr t" and
    rest: "monthly_loop day tds groups (append_if_new (get_next_trading_day t tds) acc) = Inr res"
    by (auto split: sum.splits)
  let ?acc = "append_if_new (get_next_trading_day t tds) acc"
  note IH = Cons.IH[OF rest]
  have sub: "set ?acc \<subseteq> set acc \<union> set tds"
    using get_next_trading_day_Some_mem(1)[of t tds]
    by (cases "get_next_trading_day t tds") (auto simp: set_append_if_new)
  have new: "\<forall>a \<in> set ?acc. a \<in> set acc \<or> get_next_trading_day t tds = Some a"
    by (cases "get_next_trading_day t tds") (auto simp: set_append_if_new)
  have "set res \<subseteq> set acc \<union> set tds" using IH sub by blast
  moreover have "distinct acc \<longrightarrow> distinct res"
    using IH distinct_append_if_new by blast
  moreover have "length res \<le> length acc + length (g # groups)"
    using IH length_append_if_new[of "get_next_trading_day t tds" acc] by simp
  moreover have "\<forall>a \<in> set res. a \<in> set acc \<or>
        (\<exists>(y, m) \<in> set (g # groups). \<exists>t. target_of_month y m day = Inr t \<and>
            get_next_trading_day t tds = Some a)"
  proof
    fix a assume "a \<in> set res"
    with IH have "a \<in> set ?acc \<or> (\<exists>(y, m) \<in> set groups. \<exists>t. target_of_month y m day = Inr t \<and>
            get_next_trading_day t tds = Some a)" by blast
    then show "a \<in> set acc \<or>
        (\<exists>(y, m) \<in> set (g # groups). \<exists>t. target_of_month y m day = Inr t \<and>
            get_next_trading_day t tds = Some a)"
      using new t g by auto
  qed
  ultimately show ?case by blast
qed

lemma length_groupby_year_month:
  "length (groupby_year_month tds) = card (represented_months tds)"
  by (simp add: groupby_year_month_sorted_list)

lemma set_groupby_year_month:
  "set (groupby_year_month tds) = represented_months tds"
  by (simp add: groupby_year_month_sorted_list represented_months_def)

lemma weekly_loop_invariant:
  assumes "set acc \<subseteq> set tds" and "distinct acc"
  shows "set (weekly_loop tz w tds e c acc) \<subseteq> set tds \<and>
         distinct (weekly_loop tz w tds e c acc)"
  using assms
proof (induction tz w tds e c acc rule: weekly_loop.induct)
  case (1 tz w tds e c acc)
  show ?case
  proof (cases "c \<le> e")
    case True
    let ?acc = "if instant_weekday tz c = w
                then append_if_new (next_trading_day_from_instant tz c tds) acc else acc"
    have "set ?acc \<subseteq> set tds"
      using "1.prems"(1) next_trading_day_from_instant_mem[of tz c tds]
      by (cases "next_trading_day_from_instant tz c tds") (auto simp: set_append_if_new)
    moreover have "distinct ?acc"
      using "1.prems"(2) by (simp add: distinct_append_if_new)
    ultimately show ?thesis
      using "1.IH"[OF True] True by (simp add: weekly_loop.simps[of tz w tds e c acc])
  next
    case False
    with "1.prems" show ?thesis by (simp add: weekly_loop.simps[of tz w tds e c acc])
  qed
qed

text \<open>
  C1. For a monthly schedule whose day of month is between 1 and 31, on a strictly
  increasing index, the resolver returns this list: for each calendar month that holds
  a trading day, in calendar order, the target is the requested day of that month, or
  the month's last day when the month is shorter; the target resolves to the earliest
  trading day on or after it, a month whose target has no such trading day gives
  nothing, and a resolved date already in the list is not added again.
\<close>

theorem monthly_resolver_as_specified:
  assumes "py_int freq_val = Some day_of_month"
    and "1 \<le> day_of_month" and "day_of_month \<le> 31"
    and "sorted_wrt (<) trading_days"
  shows "determine_investment_dates tz ''monthly'' freq_val trading_days =
           Inr (monthly_spec day_of_month trading_days)"
proof -
  have s: "sorted trading_days"
    using assms(4) by (rule strict_sorted_imp_sorted)
  have f: "(\<lambda>(y, m). append_if_new (get_next_trading_day (monthly_target y m day_of_month) trading_days)) =
        (\<lambda>x. append_if_new ((\<lambda>(y, m). earliest_on_or_after (monthly_target y m day_of_month) trading_days) x))"
    by (auto simp: fun_eq_iff get_next_trading_day_earliest_on_or_after[OF s])
  have "determine_investment_dates tz ''monthly'' freq_val trading_days =
        monthly_loop day_of_month trading_days (groupby_year_month trading_days) []"
    by (simp add: determine_investment_dates_def assms(1))
  also have "\<dots> = Inr (fold (\<lambda>(y, m). append_if_new
        (get_next_trading_day (monthly_target y m day_of_month) trading_days))
        (groupby_year_month trading_days) [])"
    by (rule monthly_loop_valid[OF assms(2,3)])
  also have "\<dots> = Inr (monthly_spec day_of_month trading_days)"
    unfolding f fold_append_if_new
    by (simp add: monthly_spec_def groupby_year_month_sorted_list)
  finally show ?thesis .
qed

theorem monthly_resolver_as_specified_witness:
  "py_int ''30'' = Some 30 \<and>
   sorted_wrt (<) [days_from_civil 2021 1 29, days_from_civil 2021 2 1,
     days_from_civil 2021 2 26, days_from_civil 2021 3 1, days_from_civil 2021 3 30] \<and>
   monthly_spec 30 [days_from_civil 2021 1 29, days_from_civil 2021 2 1,
     days_from_civil 2021 2 26, days_from_civil 2021 3 1, days_from_civil 2021 3 30] =
   [days_from_civil 2021 2 1, days_from_civil 2021 3 1, days_from_civil 2021 3 30]"
proof -
  let ?tds = "[days_from_civil 2021 1 29, days_from_civil 2021 2 1,
     days_from_civil 2021 2 26, days_from_civil 2021 3 1, days_from_civil 2021 3 30]"
  have p: "py_int ''30'' = Some 30" by code_simp
  have s: "sorted_wrt (<) ?tds" by code_simp
  have r: "determine_investment_dates (fixed_offset 0) ''monthly'' ''30'' ?tds =
     Inr [days_from_civil 2021 2 1, days_from_civil 2021 3 1, days_from_civil 2021 3 30]"
    by code_simp
  from monthly_resolver_as_specified[OF p _ _ s] r p s show ?thesis by simp
qed

text \<open>
  On an index whose zone has a fixed UTC offset (an index without a time zone among
  them) the weekly walk does what is specified: of the calendar days from the first
  trading day to the last one, both included, those that fall on the target weekday
  are taken in order; each resolves to the earliest trading day on or after it, and a
  resolved date already in the list is not added again.
\<close>

lemma weekly_resolver_fixed_offset:
  assumes "strptime_wday freq_val = Some target_weekday"
    and "trading_days \<noteq> []"
    and "sorted_wrt (<) trading_days"
  shows "determine_investment_dates (fixed_offset c) ''weekly'' freq_val trading_days =
           Inr (weekly_spec target_weekday trading_days)"
proof -
  have s: "sorted trading_days"
    using assms(3) by (rule strict_sorted_imp_sorted)
  obtain d ds where tds: "trading_days = d # ds"
    using assms(2) by (cases trading_days) auto
  have "determine_investment_dates (fixed_offset c) ''weekly'' freq_val trading_days =
        Inr (weekly_loop (fixed_offset c) target_weekday trading_days
               (last trading_days * 86400 - c) (hd trading_days * 86400 - c) [])"
    by (simp add: determine_investment_dates_def assms(1) tds
        instant_of_midnight_fixed_offset)
  then show ?thesis
    by (simp add: weekly_loop_fixed_offset fold_append_if_new weekly_spec_def
        get_next_trading_day_earliest_on_or_after[OF s])
qed

text \<open>
  C2. The weekly walk does not do what the claim says on an index whose time zone
  changes its UTC offset. The index below holds the trading days from Monday 8 March
  to Tuesday 16 March 2021 at midnight in New York. After the change of 14 March the
  walk stands at 01:00 local time: for Monday 15 March the mask drops the trading day
  15 March (its midnight is an hour earlier) and the walk records 16 March, where the
  claim gives 15 March, the first trading day on or after that Monday. The walk also
  ends before it visits the last day: on the index that ends on Monday 15 March that
  Monday is never reached and gets no investment date.
\<close>

theorem weekly_walk_across_dst:
  "map (\<lambda>d. instant_of_midnight new_york_2021 d +
              new_york_2021 (instant_of_midnight new_york_2021 d))
     [days_from_civil 2021 3 8, days_from_civil 2021 3 9, days_from_civil 2021 3 10,
      days_from_civil 2021 3 11, days_from_civil 2021 3 12, days_from_civil 2021 3 15,
      days_from_civil 2021 3 16] =
   map (\<lambda>d. d * 86400)
     [days_from_civil 2021 3 8, days_from_civil 2021 3 9, days_from_civil 2021 3 10,
      days_from_civil 2021 3 11, days_from_civil 2021 3 12, days_from_civil 2021 3 15,
      days_from_civil 2021 3 16] \<and>
   determine_investment_dates new_york_2021 ''weekly'' ''Monday''
     [days_from_civil 2021 3 8, days_from_civil 2021 3 9, days_from_civil 2021 3 10,
      days_from_civil 2021 3 11, days_from_civil 2021 3 12, days_from_civil 2021 3 15,
      days_from_civil 2021 3 16] =
     Inr [days_from_civil 2021 3 8, days_from_civil 2021 3 16] \<and>
   weekly_spec 0
     [days_from_civil 2021 3 8, days_from_civil 2021 3 9, days_from_civil 2021 3 10,
      days_from_civil 2021 3 11, days_from_civil 2021 3 12, days_from_civil 2021 3 15,
      days_from_civil 2021 3 16] =
     [days_from_civil 2021 3 8, days_from_civil 2021 3 15] \<and>
   determine_investment_dates new_york_2021 ''weekly'' ''Monday''
     [days_from_civil 2021 3 8, days_from_civil 2021 3 9, days_from_civil 2021 3 10,
      days_from_civil 2021 3 11, days_from_civil 2021 3 12, days_from_civil 2021 3 15] =
     Inr [days_from_civil 2021 3 8] \<and>
   weekly_spec 0
     [days_from_civil 2021 3 8, days_from_civil 2021 3 9, days_from_civil 2021 3 10,
      days_from_civil 2021 3 11, days_from_civil 2021 3 12, days_from_civil 2021 3 15] =
     [days_from_civil 2021 3 8, days_from_civil 2021 3 15]"
proof -
  let ?long = "[days_from_civil 2021 3 8, days_from_civil 2021 3 9, days_from_civil 2021 3 10,
      days_from_civil 2021 3 11, days_from_civil 2021 3 12, days_from_civil 2021 3 15,
      days_from_civil 2021 3 16]"
  let ?short = "[days_from_civil 2021 3 8, days_from_civil 2021 3 9, days_from_civil 2021 3 10,
      days_from_civil 2021 3 11, days_from_civil 2021 3 12, days_from_civil 2021 3 15]"
  have p: "strptime_wday ''Monday'' = Some 0" by code_simp
  have midnights: "map (\<lambda>d. instant_of_midnight new_york_2021 d +
              new_york_2021 (instant_of_midnight new_york_2021 d)) ?long =
        map (\<lambda>d. d * 86400) ?long"
    by code_simp
  have code_long: "determine_investment_dates new_york_2021 ''weekly'' ''Monday'' ?long =
        Inr [days_from_civil 2021 3 8, days_from_civil 2021 3 16]"
    by code_simp
  have code_short: "determine_investment_dates new_york_2021 ''weekly'' ''Monday'' ?short =
        Inr [days_from_civil 2021 3 8]"
    by code_simp
  have sl: "sorted_wrt (<) ?long" by code_simp
  have ss: "sorted_wrt (<) ?short" by code_simp
  have fixed_long: "determine_investment_dates (fixed_offset 0) ''weekly'' ''Monday'' ?long =
        Inr [days_from_civil 2021 3 8, days_from_civil 2021 3 15]"
    by code_simp
  have fixed_short: "determine_investment_dates (fixed_offset 0) ''weekly'' ''Monday'' ?short =
        Inr [days_from_civil 2021 3 8, days_from_civil 2021 3 15]"
    by code_simp
  have spec_long: "weekly_spec 0 ?long = [days_from_civil 2021 3 8, days_from_civil 2021 3 15]"
    using weekly_resolver_fixed_offset[OF p _ sl, of 0] fixed_long by simp
  have spec_short: "weekly_spec 0 ?short = [days_from_civil 2021 3 8, days_from_civil 2021 3 15]"
    using weekly_resolver_fixed_offset[OF p _ ss, of 0] fixed_short by simp
  from midnights code_long spec_long code_short spec_short show ?thesis
    by (intro conjI)
qed

text \<open>
  C4, as the code has it. Whenever the resolver returns a list, every date of the
  list is a date of the index and no date occurs twice. For a monthly schedule each
  represented calendar month gives at most one date, so the list is never longer than
  the number of represented months, and every date of the list is the roll-forward of
  the target of a represented month. The date of a month may lie in a later month.
\<close>

theorem investment_dates_invariant:
  assumes "determine_investment_dates tz freq_type freq_val trading_days = Inr dates"
  shows "set dates \<subseteq> set trading_days \<and> distinct dates \<and>
         (freq_type = ''monthly'' \<longrightarrow>
            length dates \<le> card (represented_months trading_days) \<and>
            (\<forall>a \<in> set dates. \<exists>(year, month) \<in> represented_months trading_days.
               \<exists>day_of_month target_date. py_int freq_val = Some day_of_month \<and>
                 target_of_month year month day_of_month = Inr target_date \<and>
                 get_next_trading_day target_date trading_days = Some a))"
proof (cases "freq_type = ''monthly''")
  case True
  with assms obtain day where
    day: "py_int freq_val = Some day" and
    loop: "monthly_loop day trading_days (groupby_year_month trading_days) [] = Inr dates"
    by (auto simp: determine_investment_dates_def split: option.splits)
  from monthly_loop_invariant[OF loop] day True show ?thesis
    by (simp add: length_groupby_year_month set_groupby_year_month)
next
  case False
  show ?thesis
  proof (cases "freq_type = ''weekly''")
    case True
    with assms False obtain w e c where
      "dates = weekly_loop tz w trading_days e c []"
      by (auto simp: determine_investment_dates_def split: option.splits list.splits)
    with False weekly_loop_invariant[of "[]" trading_days tz w e c]
    show ?thesis by simp
  next
    case notw: False
    with assms False have "dates = []"
      by (simp add: determine_investment_dates_def)
    with False show ?thesis by simp
  qed
qed

theorem investment_dates_invariant_witness:
  "determine_investment_dates (fixed_offset 0) ''monthly'' ''30''
     [days_from_civil 2021 1 29, days_from_civil 2021 2 1, days_from_civil 2021 2 26,
      days_from_civil 2021 3 1, days_from_civil 2021 3 30] =
     Inr [days_from_civil 2021 2 1, days_from_civil 2021 3 1, days_from_civil 2021 3 30] \<and>
   length [days_from_civil 2021 2 1, days_from_civil 2021 3 1, days_from_civil 2021 3 30]
     \<le> card (represented_months
          [days_from_civil 2021 1 29, days_from_civil 2021 2 1, days_from_civil 2021 2 26,
           days_from_civil 2021 3 1, days_from_civil 2021 3 30])"
proof -
  have r: "determine_investment_dates (fixed_offset 0) ''monthly'' ''30''
     [days_from_civil 2021 1 29, days_from_civil 2021 2 1, days_from_civil 2021 2 26,
      days_from_civil 2021 3 1, days_from_civil 2021 3 30] =
     Inr [days_from_civil 2021 2 1, days_from_civil 2021 3 1, days_from_civil 2021 3 30]"
    by code_simp
  from investment_dates_invariant[OF r] r show ?thesis by simp
qed

text \<open>
  The claim as stated fails: with day of month 30 on the index 2021-01-29, 2021-02-01,
  2021-02-26, 2021-03-01, 2021-03-30, January's target rolls to 1 February, February's
  target (snapped to the 28th, a Sunday) rolls to 1 March, and March's target is
  30 March, so two investment dates fall in March 2021.
\<close>

theorem one_date_per_month_counterexample:
  "py_int ''30'' = Some 30 \<and>
   sorted_wrt (<) [days_from_civil 2021 1 29, days_from_civil 2021 2 1,
     days_from_civil 2021 2 26, days_from_civil 2021 3 1, days_from_civil 2021 3 30] \<and>
   determine_investment_dates (fixed_offset 0) ''monthly'' ''30''
     [days_from_civil 2021 1 29, days_from_civil 2021 2 1, days_from_civil 2021 2 26,
      days_from_civil 2021 3 1, days_from_civil 2021 3 30] =
     Inr [days_from_civil 2021 2 1, days_from_civil 2021 3 1, days_from_civil 2021 3 30] \<and>
   days_from_civil 2021 3 1 \<noteq> days_from_civil 2021 3 30 \<and>
   index_year (days_from_civil 2021 3 1) = index_year (days_from_civil 2021 3 30) \<and>
   index_month (days_from_civil 2021 3 1) = index_month (days_from_civil 2021 3 30)"
  by code_simp

section \<open>Properties of the accumulation\<close>

lemma determine_investment_dates_sound:
  assumes "determine_investment_dates tz freq_type freq_val tds = Inr dates"
  shows "set dates \<subseteq> set tds" and "distinct dates"
proof -
  have "set dates \<subseteq> set tds \<and> distinct dates"
  proof (cases "freq_type = ''monthly''")
    case True
    with assms obtain day where
      "monthly_loop day tds (groupby_year_month tds) [] = Inr dates"
      by (auto simp: determine_investment_dates_def split: option.splits)
    from monthly_loop_invariant[OF this] show ?thesis by simp
  next
    case False
    show ?thesis
    proof (cases "freq_type = ''weekly''")
      case True
      with assms False obtain w e c where
        "dates = weekly_loop tz w tds e c []"
        by (auto simp: determine_investment_dates_def split: option.splits list.splits)
      with weekly_loop_invariant[of "[]" tds tz w e c] show ?thesis by simp
    next
      case notw: False
      with assms False have "dates = []"
        by (simp add: determine_investment_dates_def)
      then show ?thesis by simp
    qed
  qed
  then show "set dates \<subseteq> set tds" and "distinct dates" by simp_all
qed

lemma map_fst_dropna:
  "map fst (dropna df) = map fst (filter (\<lambda>(d, c). c \<noteq> None) df)"
  by (induction df rule: dropna.induct) auto

lemma dropna_no_missing:
  "\<forall>(d, c) \<in> set df. c \<noteq> None \<Longrightarrow> map fst (dropna df) = map fst df"
  by (induction df rule: dropna.induct) auto

lemma map_Date_init_tracking: "map Date (init_tracking rows) = map fst rows"
  by (induction rows) (auto simp: init_tracking_def)

lemma map_Close_init_tracking: "map Close (init_tracking rows) = map snd rows"
  by (induction rows) (auto simp: init_tracking_def)

lemma Date_contribute: "Date (contribute amount r) = Date r"
  by (simp add: contribute_def)

lemma Close_contribute: "Close (contribute amount r) = Close r"
  by (simp add: contribute_def)

lemma invest_on_map:
  "invest_on amount date df = map (\<lambda>r. if Date r = date then contribute amount r else r) df"
proof (cases "date \<in> set (map Date df)")
  case True
  then show ?thesis by (simp add: invest_on_def)
next
  case False
  then have "map (\<lambda>r. if Date r = date then contribute amount r else r) df = map (\<lambda>r. r) df"
    by (intro map_cong) auto
  with False show ?thesis by (simp add: invest_on_def)
qed

text \<open>With distinct investment dates every row is contributed to at most once.\<close>

lemma apply_investments_distinct:
  "distinct dates \<Longrightarrow>
     apply_investments amount dates df =
       map (\<lambda>r. if Date r \<in> set dates then contribute amount r else r) df"
proof (induction dates arbitrary: df)
  case Nil
  show ?case by simp
next
  case (Cons d dates)
  then have d: "d \<notin> set dates" and dist: "distinct dates" by simp_all
  show ?case
    unfolding apply_investments.simps Cons.IH[OF dist] invest_on_map
    using d by (auto simp: Date_contribute)
qed

lemma length_cumsum_from: "length (cumsum_from acc xs) = length xs"
  by (induction xs arbitrary: acc) auto

lemma length_cumsum: "length (cumsum xs) = length xs"
  by (simp add: cumsum_def length_cumsum_from)

lemma map_Total_Invested_add_totals:
  "map Total_Invested (add_totals df) = cumsum (map Invested_Today df)"
proof -
  have "map Total_Invested (add_totals df) =
        map fst (map snd (zip df (zip (cumsum (map Invested_Today df))
                                      (cumsum (map Shares_Bought_Today df)))))"
    by (auto simp: add_totals_def derive_row_def Let_def)
  then show ?thesis by (simp add: length_cumsum)
qed

lemma map_Total_Shares_add_totals:
  "map Total_Shares (add_totals df) = cumsum (map Shares_Bought_Today df)"
proof -
  have "map Total_Shares (add_totals df) =
        map snd (map snd (zip df (zip (cumsum (map Invested_Today df))
                                      (cumsum (map Shares_Bought_Today df)))))"
    by (auto simp: add_totals_def derive_row_def Let_def)
  then show ?thesis by (simp add: length_cumsum)
qed

lemma map_tracked_add_totals:
  "map Date (add_totals df) = map Date df"
  "map Close (add_totals df) = map Close df"
  "map Invested_Today (add_totals df) = map Invested_Today df"
  "map Shares_Bought_Today (add_totals df) = map Shares_Bought_Today df"
proof -
  let ?z = "zip df (zip (cumsum (map Invested_Today df)) (cumsum (map Shares_Bought_Today df)))"
  have fst: "map fst ?z = df" by (simp add: length_cumsum)
  have "map Date (add_totals df) = map Date (map fst ?z)"
    by (auto simp: add_totals_def derive_row_def Let_def)
  then show "map Date (add_totals df) = map Date df" by (simp only: fst)
  have "map Close (add_totals df) = map Close (map fst ?z)"
    by (auto simp: add_totals_def derive_row_def Let_def)
  then show "map Close (add_totals df) = map Close df" by (simp only: fst)
  have "map Invested_Today (add_totals df) = map Invested_Today (map fst ?z)"
    by (auto simp: add_totals_def derive_row_def Let_def)
  then show "map Invested_Today (add_totals df) = map Invested_Today df" by (simp only: fst)
  have "map Shares_Bought_Today (add_totals df) = map Shares_Bought_Today (map fst ?z)"
    by (auto simp: add_totals_def derive_row_def Let_def)
  then show "map Shares_Bought_Today (add_totals df) = map Shares_Bought_Today df"
    by (simp only: fst)
qed

lemma map_Date_apply_investments:
  "map Date (apply_investments amount dates df) = map Date df"
  by (induction dates arbitrary: df) (auto simp: invest_on_map Date_contribute o_def)

lemma map_Close_apply_investments:
  "map Close (apply_investments amount dates df) = map Close df"
  by (induction dates arbitrary: df) (auto simp: invest_on_map Close_contribute o_def)

text \<open>What \<open>calculate_sip\<close> returns, step by step.\<close>

lemma calculate_sip_Inr:
  assumes "calculate_sip tz df amount freq_type freq_val = Inr rows"
  obtains dates where
    "determine_investment_dates tz freq_type freq_val (map fst (dropna df)) = Inr dates"
    "rows = add_totals (apply_investments amount dates (init_tracking (dropna df)))"
  using assms
  by (auto simp: calculate_sip_def Let_def map_Date_init_tracking split: sum.splits)

lemma calculate_sip_dates:
  assumes "calculate_sip tz df amount freq_type freq_val = Inr rows"
  shows "map Date rows = map fst (dropna df)"
  using assms
  by (auto elim!: calculate_sip_Inr
      simp: map_tracked_add_totals map_Date_apply_investments map_Date_init_tracking)

lemma dropna_no_missing_closes:
  "\<forall>(d, c) \<in> set df. c \<noteq> None \<Longrightarrow> map (\<lambda>(d, c). Some c) (dropna df) = map snd df"
  by (induction df rule: dropna.induct) auto

lemma calculate_sip_closes:
  assumes "calculate_sip tz df amount freq_type freq_val = Inr rows"
  shows "map Close rows = map snd (dropna df)"
  using assms
  by (auto elim!: calculate_sip_Inr
      simp: map_tracked_add_totals map_Close_apply_investments map_Close_init_tracking)

text \<open>
  C9, as the code has it. The returned table has one row for each input row whose
  \<open>Close\<close> entry is present, in the input's order; rows with a missing entry are
  dropped on entry. When no entry is missing the returned dates are exactly the input
  dates, row by row, with the input's closing prices.
\<close>

theorem output_rows_aligned:
  assumes "calculate_sip tz df amount freq_type freq_val = Inr rows"
  shows "map Date rows = map fst (filter (\<lambda>(d, c). c \<noteq> None) df) \<and>
         ((\<forall>(d, c) \<in> set df. c \<noteq> None) \<longrightarrow>
            map Date rows = map fst df \<and> map (\<lambda>r. Some (Close r)) rows = map snd df)"
proof (intro conjI impI)
  show "map Date rows = map fst (filter (\<lambda>(d, c). c \<noteq> None) df)"
    using calculate_sip_dates[OF assms] by (simp add: map_fst_dropna)
next
  assume all: "\<forall>(d, c) \<in> set df. c \<noteq> None"
  show "map Date rows = map fst df"
    using calculate_sip_dates[OF assms] dropna_no_missing[OF all] by simp
  have "map (\<lambda>r. Some (Close r)) rows = map Some (map Close rows)" by simp
  also have "\<dots> = map (\<lambda>(d, c). Some c) (dropna df)"
    unfolding calculate_sip_closes[OF assms] by (simp add: case_prod_unfold)
  finally show "map (\<lambda>r. Some (Close r)) rows = map snd df"
    using dropna_no_missing_closes[OF all] by simp
qed

theorem output_rows_aligned_witness:
  "calculate_sip (fixed_offset 0) [(days_from_civil 2021 3 1, Some 10), (days_from_civil 2021 4 1, Some 20)]
     100 ''monthly'' ''1'' =
   Inr [\<lparr>Date = days_from_civil 2021 3 1, Close = 10, Invested_Today = Fin 100,
          Shares_Bought_Today = Fin 10, Total_Invested = Fin 100, Total_Shares = Fin 10,
          Portfolio_Value = Fin 100, Profit = Fin 0, Profit_Pct = Fin 0\<rparr>,
        \<lparr>Date = days_from_civil 2021 4 1, Close = 20, Invested_Today = Fin 100,
          Shares_Bought_Today = Fin 5, Total_Invested = Fin 200, Total_Shares = Fin 15,
          Portfolio_Value = Fin 300, Profit = Fin 100, Profit_Pct = Fin 50\<rparr>] \<and>
   map fst [(days_from_civil 2021 3 1, Some (10::real)), (days_from_civil 2021 4 1, Some 20)] =
     [days_from_civil 2021 3 1, days_from_civil 2021 4 1]"
proof -
  have r: "calculate_sip (fixed_offset 0) [(days_from_civil 2021 3 1, Some 10), (days_from_civil 2021 4 1, Some 20)]
     100 ''monthly'' ''1'' =
   Inr [\<lparr>Date = days_from_civil 2021 3 1, Close = 10, Invested_Today = Fin 100,
          Shares_Bought_Today = Fin 10, Total_Invested = Fin 100, Total_Shares = Fin 10,
          Portfolio_Value = Fin 100, Profit = Fin 0, Profit_Pct = Fin 0\<rparr>,
        \<lparr>Date = days_from_civil 2021 4 1, Close = 20, Invested_Today = Fin 100,
          Shares_Bought_Today = Fin 5, Total_Invested = Fin 200, Total_Shares = Fin 15,
          Portfolio_Value = Fin 300, Profit = Fin 100, Profit_Pct = Fin 50\<rparr>]"
    by code_simp
  from output_rows_aligned[OF r] r show ?thesis by simp
qed

text \<open>
  The claim as stated fails on an input row whose \<open>Close\<close> entry is missing: the
  row of 2021-03-02 is dropped, and the output has two rows for three input rows.
\<close>

theorem output_rows_aligned_counterexample:
  "calculate_sip (fixed_offset 0) [(days_from_civil 2021 3 1, Some 10), (days_from_civil 2021 3 2, None),
                  (days_from_civil 2021 4 1, Some 20)]
     100 ''monthly'' ''1'' =
   Inr [\<lparr>Date = days_from_civil 2021 3 1, Close = 10, Invested_Today = Fin 100,
          Shares_Bought_Today = Fin 10, Total_Invested = Fin 100, Total_Shares = Fin 10,
          Portfolio_Value = Fin 100, Profit = Fin 0, Profit_Pct = Fin 0\<rparr>,
        \<lparr>Date = days_from_civil 2021 4 1, Close = 20, Invested_Today = Fin 100,
          Shares_Bought_Today = Fin 5, Total_Invested = Fin 200, Total_Shares = Fin 15,
          Portfolio_Value = Fin 300, Profit = Fin 100, Profit_Pct = Fin 50\<rparr>] \<and>
   map fst [(days_from_civil 2021 3 1, Some (10::real)), (days_from_civil 2021 3 2, None),
            (days_from_civil 2021 4 1, Some 20)] \<noteq>
     [days_from_civil 2021 3 1, days_from_civil 2021 4 1]"
  by code_simp

lemma fl_add_zero_left: "fl_add (Fin 0) x = x"
  by (cases x) auto

lemma init_tracking_zero:
  "r \<in> set (init_tracking rows) \<Longrightarrow>
     Invested_Today r = Fin 0 \<and> Shares_Bought_Today r = Fin 0"
  by (auto simp: init_tracking_def)

text \<open>The tracking columns once the investments are applied.\<close>

lemma applied_rows:
  assumes "distinct dates"
    and "r \<in> set (apply_investments amount dates (init_tracking rows))"
  shows "Invested_Today r = (if Date r \<in> set dates then Fin amount else Fin 0)"
    and "Shares_Bought_Today r =
           (if Date r \<in> set dates then fl_div (Fin amount) (Fin (Close r)) else Fin 0)"
proof -
  from assms obtain r0 where r0: "r0 \<in> set (init_tracking rows)"
    and r: "r = (if Date r0 \<in> set dates then contribute amount r0 else r0)"
    by (auto simp: apply_investments_distinct)
  from init_tracking_zero[OF r0] r
  show "Invested_Today r = (if Date r \<in> set dates then Fin amount else Fin 0)"
    and "Shares_Bought_Today r =
           (if Date r \<in> set dates then fl_div (Fin amount) (Fin (Close r)) else Fin 0)"
    by (auto simp: contribute_def fl_add_zero_left)
qed

lemma set_map_eq: "map f xs = map g ys \<Longrightarrow> x \<in> set xs \<Longrightarrow> \<exists>y \<in> set ys. f x = g y"
  by (metis (no_types, lifting) image_iff list.set_map)

text \<open>
  C10. Whenever the engine returns, the investment dates it resolved are distinct,
  and every returned row has \<open>Invested_Today\<close> equal to the amount when its date is
  an investment date and equal to 0 otherwise: never a multiple of the amount.
\<close>

theorem invested_today_zero_or_amount:
  assumes "calculate_sip tz df amount freq_type freq_val = Inr rows"
  shows "\<exists>dates. determine_investment_dates tz freq_type freq_val (map Date rows) = Inr dates \<and>
           distinct dates \<and>
           (\<forall>r \<in> set rows. Invested_Today r = (if Date r \<in> set dates then Fin amount else Fin 0)) \<and>
           (\<forall>r \<in> set rows. Invested_Today r = Fin 0 \<or> Invested_Today r = Fin amount)"
proof -
  from assms obtain dates where
    d: "determine_investment_dates tz freq_type freq_val (map fst (dropna df)) = Inr dates" and
    rows: "rows = add_totals (apply_investments amount dates (init_tracking (dropna df)))"
    by (rule calculate_sip_Inr)
  let ?df = "apply_investments amount dates (init_tracking (dropna df))"
  have dist: "distinct dates" using determine_investment_dates_sound(2)[OF d] .
  have inv: "Invested_Today r = (if Date r \<in> set dates then Fin amount else Fin 0)"
    if "r \<in> set rows" for r
  proof -
    have "map (\<lambda>r. (Date r, Invested_Today r)) rows = map (\<lambda>r. (Date r, Invested_Today r)) ?df"
      unfolding rows using map_tracked_add_totals(1,3)[of ?df]
      by (simp add: list_eq_iff_nth_eq)
    from set_map_eq[OF this that] obtain r0 where "r0 \<in> set ?df"
      and "Date r = Date r0" "Invested_Today r = Invested_Today r0" by auto
    with applied_rows(1)[OF dist, of r0 amount "dropna df"] show ?thesis by simp
  qed
  have "determine_investment_dates tz freq_type freq_val (map Date rows) = Inr dates"
    using d calculate_sip_dates[OF assms] by simp
  with dist inv show ?thesis by (intro exI[of _ dates]) auto
qed

theorem invested_today_zero_or_amount_witness:
  "calculate_sip (fixed_offset 0) [(days_from_civil 2021 1 29, Some 10), (days_from_civil 2021 2 1, Some 10),
                  (days_from_civil 2021 2 9, Some 20)] 100 ''weekly'' ''Monday'' =
   Inr [\<lparr>Date = days_from_civil 2021 1 29, Close = 10, Invested_Today = Fin 0,
          Shares_Bought_Today = Fin 0, Total_Invested = Fin 0, Total_Shares = Fin 0,
          Portfolio_Value = Fin 0, Profit = Fin 0, Profit_Pct = Fin 0\<rparr>,
        \<lparr>Date = days_from_civil 2021 2 1, Close = 10, Invested_Today = Fin 100,
          Shares_Bought_Today = Fin 10, Total_Invested = Fin 100, Total_Shares = Fin 10,
          Portfolio_Value = Fin 100, Profit = Fin 0, Profit_Pct = Fin 0\<rparr>,
        \<lparr>Date = days_from_civil 2021 2 9, Close = 20, Invested_Today = Fin 100,
          Shares_Bought_Today = Fin 5, Total_Invested = Fin 200, Total_Shares = Fin 15,
          Portfolio_Value = Fin 300, Profit = Fin 100, Profit_Pct = Fin 50\<rparr>]"
proof -
  have r: "calculate_sip (fixed_offset 0) [(days_from_civil 2021 1 29, Some 10), (days_from_civil 2021 2 1, Some 10),
                  (days_from_civil 2021 2 9, Some 20)] 100 ''weekly'' ''Monday'' =
   Inr [\<lparr>Date = days_from_civil 2021 1 29, Close = 10, Invested_Today = Fin 0,
          Shares_Bought_Today = Fin 0, Total_Invested = Fin 0, Total_Shares = Fin 0,
          Portfolio_Value = Fin 0, Profit = Fin 0, Profit_Pct = Fin 0\<rparr>,
        \<lparr>Date = days_from_civil 2021 2 1, Close = 10, Invested_Today = Fin 100,
          Shares_Bought_Today = Fin 10, Total_Invested = Fin 100, Total_Shares = Fin 10,
          Portfolio_Value = Fin 100, Profit = Fin 0, Profit_Pct = Fin 0\<rparr>,
        \<lparr>Date = days_from_civil 2021 2 9, Close = 20, Invested_Today = Fin 100,
          Shares_Bought_Today = Fin 5, Total_Invested = Fin 200, Total_Shares = Fin 15,
          Portfolio_Value = Fin 300, Profit = Fin 100, Profit_Pct = Fin 50\<rparr>]"
    by code_simp
  from invested_today_zero_or_amount[OF r] r show ?thesis by simp
qed

section \<open>Properties of the running totals\<close>

lemma fl_le_trans: "fl_le x y \<Longrightarrow> fl_le y z \<Longrightarrow> fl_le x z"
  by (cases x; cases y; cases z) auto

lemma fl_le_add_nonneg:
  assumes "fl_le (Fin 0) acc" and "fl_le (Fin 0) x"
  shows "fl_le acc (fl_add acc x)" and "fl_le (Fin 0) (fl_add acc x)"
  using assms by (cases acc; cases x; simp)+

lemma cumsum_from_non_decreasing:
  assumes "fl_le (Fin 0) acc" and "\<forall>x \<in> set xs. fl_le (Fin 0) x"
  shows "sorted_wrt fl_le (cumsum_from acc xs) \<and>
         (\<forall>y \<in> set (cumsum_from acc xs). fl_le acc y)"
  using assms
proof (induction xs arbitrary: acc)
  case Nil
  show ?case by simp
next
  case (Cons x xs)
  from Cons.prems have x: "fl_le (Fin 0) x" and xs: "\<forall>x \<in> set xs. fl_le (Fin 0) x"
    by simp_all
  from x have nn: "x \<noteq> NaN" by (cases x) auto
  let ?acc = "fl_add acc x"
  have step: "fl_le acc ?acc" and pos: "fl_le (Fin 0) ?acc"
    using fl_le_add_nonneg[OF Cons.prems(1) x] by simp_all
  from Cons.IH[OF pos xs] have
    sorted: "sorted_wrt fl_le (cumsum_from ?acc xs)" and
    above: "\<forall>y \<in> set (cumsum_from ?acc xs). fl_le ?acc y" by simp_all
  from above step have "\<forall>y \<in> set (cumsum_from ?acc xs). fl_le acc y"
    using fl_le_trans by blast
  with sorted above step nn show ?case by simp
qed

lemma dropna_mem: "(d, c) \<in> set (dropna df) \<Longrightarrow> (d, Some c) \<in> set df"
  by (induction df rule: dropna.induct) auto

lemma applied_rows_closes:
  assumes "r \<in> set (apply_investments amount dates (init_tracking (dropna df)))"
  shows "\<exists>d. (d, Some (Close r)) \<in> set df"
proof -
  have "Close r \<in> set (map Close (apply_investments amount dates (init_tracking (dropna df))))"
    using assms by simp
  then have "Close r \<in> snd ` set (dropna df)"
    by (simp add: map_Close_apply_investments map_Close_init_tracking)
  then show ?thesis using dropna_mem by fastforce
qed

text \<open>
  C8. For a positive amount the cumulative invested amount never decreases from one
  row to the next, and on a price series, whose closing prices are positive, the
  cumulative share count never decreases either.
\<close>

theorem totals_non_decreasing:
  assumes "calculate_sip tz df amount freq_type freq_val = Inr rows"
    and "0 < amount"
  shows "sorted_wrt fl_le (map Total_Invested rows) \<and>
         ((\<forall>(d, c) \<in> set df. \<forall>x. c = Some x \<longrightarrow> 0 < x) \<longrightarrow>
            sorted_wrt fl_le (map Total_Shares rows))"
proof (intro conjI impI)
  from assms(1) obtain dates where
    d: "determine_investment_dates tz freq_type freq_val (map fst (dropna df)) = Inr dates" and
    rows: "rows = add_totals (apply_investments amount dates (init_tracking (dropna df)))"
    by (rule calculate_sip_Inr)
  let ?df = "apply_investments amount dates (init_tracking (dropna df))"
  have dist: "distinct dates" using determine_investment_dates_sound(2)[OF d] .
  have "\<forall>x \<in> set (map Invested_Today ?df). fl_le (Fin 0) x"
    using applied_rows(1)[OF dist, of _ amount "dropna df"] assms(2) by auto
  from cumsum_from_non_decreasing[OF _ this, of "Fin 0"]
  show "sorted_wrt fl_le (map Total_Invested rows)"
    by (simp add: rows map_Total_Invested_add_totals cumsum_def)
  assume prices: "\<forall>(d, c) \<in> set df. \<forall>x. c = Some x \<longrightarrow> 0 < x"
  have "fl_le (Fin 0) (Shares_Bought_Today r)" if r: "r \<in> set ?df" for r
  proof -
    from applied_rows_closes[OF r] prices have c: "0 < Close r" by auto
    show ?thesis
    proof (cases "Date r \<in> set dates")
      case True
      with applied_rows(2)[OF dist r] c assms(2) show ?thesis by simp
    next
      case False
      with applied_rows(2)[OF dist r] show ?thesis by simp
    qed
  qed
  then have "\<forall>x \<in> set (map Shares_Bought_Today ?df). fl_le (Fin 0) x" by auto
  from cumsum_from_non_decreasing[OF _ this, of "Fin 0"]
  show "sorted_wrt fl_le (map Total_Shares rows)"
    by (simp add: rows map_Total_Shares_add_totals cumsum_def)
qed

theorem totals_non_decreasing_witness:
  "calculate_sip (fixed_offset 0)
     [(days_from_civil 2021 3 1, Some 10), (days_from_civil 2021 4 1, Some 20)]
     100 ''monthly'' ''1'' =
   Inr [\<lparr>Date = days_from_civil 2021 3 1, Close = 10, Invested_Today = Fin 100,
          Shares_Bought_Today = Fin 10, Total_Invested = Fin 100, Total_Shares = Fin 10,
          Portfolio_Value = Fin 100, Profit = Fin 0, Profit_Pct = Fin 0\<rparr>,
        \<lparr>Date = days_from_civil 2021 4 1, Close = 20, Invested_Today = Fin 100,
          Shares_Bought_Today = Fin 5, Total_Invested = Fin 200, Total_Shares = Fin 15,
          Portfolio_Value = Fin 300, Profit = Fin 100, Profit_Pct = Fin 50\<rparr>] \<and>
   sorted_wrt fl_le [Fin 100, Fin 200] \<and> sorted_wrt fl_le [Fin 10, Fin 15]"
proof -
  have r: "calculate_sip (fixed_offset 0)
     [(days_from_civil 2021 3 1, Some 10), (days_from_civil 2021 4 1, Some 20)]
     100 ''monthly'' ''1'' =
   Inr [\<lparr>Date = days_from_civil 2021 3 1, Close = 10, Invested_Today = Fin 100,
          Shares_Bought_Today = Fin 10, Total_Invested = Fin 100, Total_Shares = Fin 10,
          Portfolio_Value = Fin 100, Profit = Fin 0, Profit_Pct = Fin 0\<rparr>,
        \<lparr>Date = days_from_civil 2021 4 1, Close = 20, Invested_Today = Fin 100,
          Shares_Bought_Today = Fin 5, Total_Invested = Fin 200, Total_Shares = Fin 15,
          Portfolio_Value = Fin 300, Profit = Fin 100, Profit_Pct = Fin 50\<rparr>]"
    by code_simp
  have a: "(0::real) < 100" by simp
  from totals_non_decreasing[OF r a] r show ?thesis by simp
qed

lemma fl_mul_commute: "fl_mul x y = fl_mul y x"
  by (cases x; cases y) (auto simp: signed_inf_def)

lemma fl_mul_100_not_NaN: "q \<noteq> NaN \<Longrightarrow> fl_mul q (Fin 100) \<noteq> NaN"
  by (cases q) (auto simp: signed_inf_def)

lemma fillna0_not_NaN: "fillna0 x \<noteq> NaN"
  by (cases x) auto

lemma fillna0_id: "x \<noteq> NaN \<Longrightarrow> fillna0 x = x"
  by (cases x) auto

text \<open>The derived columns of a row, read off \<open>derive_row\<close>.\<close>

lemma derive_row_columns:
  "Total_Invested (derive_row r ti ts) = ti"
  "Total_Shares (derive_row r ti ts) = ts"
  "Close (derive_row r ti ts) = Close r"
  "Portfolio_Value (derive_row r ti ts) = fl_mul ts (Fin (Close r))"
  "Profit (derive_row r ti ts) = fl_sub (fl_mul ts (Fin (Close r))) ti"
  "Profit_Pct (derive_row r ti ts) =
     fillna0 (fl_mul (fl_div (fl_sub (fl_mul ts (Fin (Close r))) ti) ti) (Fin 100))"
  by (simp_all add: derive_row_def Let_def)

lemma derive_row_pct_zero:
  assumes "ts = NaN \<or> ts = Fin 0"
  shows "Profit_Pct (derive_row r (Fin 0) ts) = Fin 0"
  using assms by (auto simp: derive_row_columns fl_sub_def)

text \<open>
  While nothing has been invested, no share has been bought: the invariant of the two
  running sums that makes the percentage 0 wherever the invested total is 0.
\<close>

lemma pct_zero_invariant:
  assumes "\<forall>r \<in> set df.
             (Invested_Today r = Fin 0 \<and> Shares_Bought_Today r = Fin 0) \<or>
             (Invested_Today r = Fin amount \<and>
              Shares_Bought_Today r = fl_div (Fin amount) (Fin (Close r)))"
    and "0 \<le> t * amount" and "t = 0 \<longrightarrow> shares = Fin 0"
    and "(r, ti, ts) \<in> set (zip df (zip (cumsum_from (Fin t) (map Invested_Today df))
                                        (cumsum_from shares (map Shares_Bought_Today df))))"
    and "ti = Fin 0"
  shows "Profit_Pct (derive_row r ti ts) = Fin 0"
  using assms
proof (induction df arbitrary: t shares)
  case Nil
  then show ?case by simp
next
  case (Cons r0 df)
  from Cons.prems(1) have rest: "\<forall>r \<in> set df.
             (Invested_Today r = Fin 0 \<and> Shares_Bought_Today r = Fin 0) \<or>
             (Invested_Today r = Fin amount \<and>
              Shares_Bought_Today r = fl_div (Fin amount) (Fin (Close r)))"
    by simp
  from Cons.prems(1) consider
      (idle) "Invested_Today r0 = Fin 0" "Shares_Bought_Today r0 = Fin 0"
    | (paid) "Invested_Today r0 = Fin amount"
             "Shares_Bought_Today r0 = fl_div (Fin amount) (Fin (Close r0))"
    by auto
  then show ?case
  proof cases
    case idle
    have inv: "t = 0 \<longrightarrow> fl_add shares (Fin 0) = Fin 0"
      using Cons.prems(3) by auto
    from Cons.prems(4) idle consider
        (head) "r = r0" "ti = Fin t" "ts = fl_add shares (Fin 0)"
      | (tail) "(r, ti, ts) \<in> set (zip df (zip (cumsum_from (Fin t) (map Invested_Today df))
            (cumsum_from (fl_add shares (Fin 0)) (map Shares_Bought_Today df))))"
      by auto
    then show ?thesis
    proof cases
      case head
      with Cons.prems(5) inv show ?thesis by (simp add: derive_row_pct_zero)
    next
      case tail
      from Cons.IH[OF rest Cons.prems(2) inv tail Cons.prems(5)] show ?thesis .
    qed
  next
    case paid
    let ?s = "fl_div (Fin amount) (Fin (Close r0))"
    let ?shares = "if ?s = NaN then shares else fl_add shares ?s"
    have pos: "0 \<le> (t + amount) * amount"
      using Cons.prems(2) by (simp add: distrib_right)
    have zero: "amount = 0 \<and> t = 0" if "t + amount = 0"
    proof -
      from that have "t = - amount" by simp
      with Cons.prems(2) have "amount * amount \<le> 0" by simp
      moreover have "0 \<le> amount * amount" by simp
      ultimately have "amount * amount = 0" by (rule antisym)
      then have "amount = 0" by simp
      with that show ?thesis by simp
    qed
    have inv: "t + amount = 0 \<longrightarrow> ?shares = Fin 0"
    proof
      assume "t + amount = 0"
      with zero have a: "amount = 0" and t: "t = 0" by simp_all
      from t Cons.prems(3) have "shares = Fin 0" by simp
      with a show "?shares = Fin 0" by simp
    qed
    from Cons.prems(4) paid consider
        (head) "r = r0" "ti = Fin (t + amount)"
               "ts = (if ?s = NaN then NaN else fl_add shares ?s)"
      | (tail) "(r, ti, ts) \<in> set (zip df (zip (cumsum_from (Fin (t + amount)) (map Invested_Today df))
            (cumsum_from ?shares (map Shares_Bought_Today df))))"
      by (auto split: if_splits)
    then show ?thesis
    proof cases
      case head
      from head(2) Cons.prems(5) have "t + amount = 0" by simp
      with inv have "?shares = Fin 0" by simp
      with head(3) have "ts = NaN \<or> ts = Fin 0" by (auto split: if_splits)
      with Cons.prems(5) show ?thesis by (simp add: derive_row_pct_zero)
    next
      case tail
      from Cons.IH[OF rest pos inv tail Cons.prems(5)] show ?thesis .
    qed
  qed
qed

lemma add_totals_mem:
  assumes "r \<in> set (add_totals df)"
  obtains r0 ti ts where
    "r = derive_row r0 ti ts"
    "(r0, ti, ts) \<in> set (zip df (zip (cumsum_from (Fin 0) (map Invested_Today df))
                                        (cumsum_from (Fin 0) (map Shares_Bought_Today df))))"
  using assms by (auto simp: add_totals_def cumsum_def)

text \<open>
  C3. On every returned row the portfolio value is the cumulative share count times
  the close, the profit is the portfolio value minus the cumulative invested amount,
  and the profit percentage is 100 times the profit divided by the cumulative invested
  amount whenever that quotient is a number; for finite values with a non-zero
  invested total this is the real number \<open>100 * profit / invested\<close>. Where the
  invested total is 0 the percentage is 0, and the percentage is never NaN.
\<close>

theorem derived_columns:
  assumes "calculate_sip tz df amount freq_type freq_val = Inr rows"
    and "r \<in> set rows"
  shows "Portfolio_Value r = fl_mul (Total_Shares r) (Fin (Close r)) \<and>
         Profit r = fl_sub (Portfolio_Value r) (Total_Invested r) \<and>
         (fl_div (Profit r) (Total_Invested r) \<noteq> NaN \<longrightarrow>
            Profit_Pct r = fl_mul (Fin 100) (fl_div (Profit r) (Total_Invested r))) \<and>
         (\<forall>p t. Profit r = Fin p \<and> Total_Invested r = Fin t \<and> t \<noteq> 0 \<longrightarrow>
            Profit_Pct r = Fin (100 * p / t)) \<and>
         (Total_Invested r = Fin 0 \<longrightarrow> Profit_Pct r = Fin 0) \<and>
         Profit_Pct r \<noteq> NaN"
proof -
  from assms(1) obtain dates where
    d: "determine_investment_dates tz freq_type freq_val (map fst (dropna df)) = Inr dates" and
    rows: "rows = add_totals (apply_investments amount dates (init_tracking (dropna df)))"
    by (rule calculate_sip_Inr)
  let ?df = "apply_investments amount dates (init_tracking (dropna df))"
  have dist: "distinct dates" using determine_investment_dates_sound(2)[OF d] .
  from assms(2) rows obtain r0 ti ts where
    r: "r = derive_row r0 ti ts" and
    mem: "(r0, ti, ts) \<in> set (zip ?df (zip (cumsum_from (Fin 0) (map Invested_Today ?df))
                                        (cumsum_from (Fin 0) (map Shares_Bought_Today ?df))))"
    by (auto elim: add_totals_mem)
  have pv: "Portfolio_Value r = fl_mul (Total_Shares r) (Fin (Close r))"
    by (simp add: r derive_row_columns)
  have profit: "Profit r = fl_sub (Portfolio_Value r) (Total_Invested r)"
    by (simp add: r derive_row_columns)
  have pct: "Profit_Pct r = fillna0 (fl_mul (fl_div (Profit r) (Total_Invested r)) (Fin 100))"
    by (simp add: r derive_row_columns)
  have quot: "Profit_Pct r = fl_mul (Fin 100) (fl_div (Profit r) (Total_Invested r))"
    if "fl_div (Profit r) (Total_Invested r) \<noteq> NaN"
    using fl_mul_100_not_NaN[OF that] pct
    by (simp add: fillna0_id fl_mul_commute[of "Fin 100"])
  have fin: "Profit_Pct r = Fin (100 * p / t)"
    if "Profit r = Fin p \<and> Total_Invested r = Fin t \<and> t \<noteq> 0" for p t
    using that pct by simp
  have applied: "\<forall>r \<in> set ?df.
             (Invested_Today r = Fin 0 \<and> Shares_Bought_Today r = Fin 0) \<or>
             (Invested_Today r = Fin amount \<and>
              Shares_Bought_Today r = fl_div (Fin amount) (Fin (Close r)))"
    using applied_rows[OF dist, of _ amount "dropna df"] by auto
  have zero: "Profit_Pct r = Fin 0" if "Total_Invested r = Fin 0"
  proof -
    from that have "ti = Fin 0" by (simp add: r derive_row_columns)
    from pct_zero_invariant[OF applied _ _ mem this] show ?thesis
      by (simp add: r)
  qed
  have nn: "Profit_Pct r \<noteq> NaN"
    by (simp add: pct fillna0_not_NaN)
  from pv profit quot fin zero nn show ?thesis by blast
qed

theorem derived_columns_witness:
  "calculate_sip (fixed_offset 0) [(days_from_civil 2021 1 29, Some 10), (days_from_civil 2021 2 1, Some 10),
                  (days_from_civil 2021 2 9, Some 20)] 100 ''weekly'' ''Monday'' =
   Inr [\<lparr>Date = days_from_civil 2021 1 29, Close = 10, Invested_Today = Fin 0,
          Shares_Bought_Today = Fin 0, Total_Invested = Fin 0, Total_Shares = Fin 0,
          Portfolio_Value = Fin 0, Profit = Fin 0, Profit_Pct = Fin 0\<rparr>,
        \<lparr>Date = days_from_civil 2021 2 1, Close = 10, Invested_Today = Fin 100,
          Shares_Bought_Today = Fin 10, Total_Invested = Fin 100, Total_Shares = Fin 10,
          Portfolio_Value = Fin 100, Profit = Fin 0, Profit_Pct = Fin 0\<rparr>,
        \<lparr>Date = days_from_civil 2021 2 9, Close = 20, Invested_Today = Fin 100,
          Shares_Bought_Today = Fin 5, Total_Invested = Fin 200, Total_Shares = Fin 15,
          Portfolio_Value = Fin 300, Profit = Fin 100, Profit_Pct = Fin 50\<rparr>] \<and>
   fl_div (Fin 100) (Fin 200) \<noteq> NaN \<and>
   fl_mul (Fin 100) (fl_div (Fin 100) (Fin 200)) = Fin 50 \<and>
   fl_mul (Fin 15) (Fin 20) = Fin 300 \<and> fl_sub (Fin 300) (Fin 200) = Fin 100"
proof -
  let ?r1 = "\<lparr>Date = days_from_civil 2021 1 29, Close = 10, Invested_Today = Fin 0,
          Shares_Bought_Today = Fin 0, Total_Invested = Fin 0, Total_Shares = Fin 0,
          Portfolio_Value = Fin 0, Profit = Fin 0, Profit_Pct = Fin 0\<rparr>"
  let ?r3 = "\<lparr>Date = days_from_civil 2021 2 9, Close = 20, Invested_Today = Fin 100,
          Shares_Bought_Today = Fin 5, Total_Invested = Fin 200, Total_Shares = Fin 15,
          Portfolio_Value = Fin 300, Profit = Fin 100, Profit_Pct = Fin 50\<rparr>"
  have r: "calculate_sip (fixed_offset 0) [(days_from_civil 2021 1 29, Some 10), (days_from_civil 2021 2 1, Some 10),
                  (days_from_civil 2021 2 9, Some 20)] 100 ''weekly'' ''Monday'' =
   Inr [?r1,
        \<lparr>Date = days_from_civil 2021 2 1, Close = 10, Invested_Today = Fin 100,
          Shares_Bought_Today = Fin 10, Total_Invested = Fin 100, Total_Shares = Fin 10,
          Portfolio_Value = Fin 100, Profit = Fin 0, Profit_Pct = Fin 0\<rparr>,
        ?r3]"
    by code_simp
  from derived_columns[OF r, of ?r1] derived_columns[OF r, of ?r3] r
  show ?thesis by (simp add: fl_sub_def)
qed

section \<open>Properties of the error handling\<close>

lemma add_totals_Nil: "add_totals [] = []"
  by (simp add: add_totals_def cumsum_def)

lemma calculate_sip_empty_monthly:
  "py_int freq_val \<noteq> None \<Longrightarrow> calculate_sip tz [] amount ''monthly'' freq_val = Inr []"
  by (auto simp: calculate_sip_def determine_investment_dates_def groupby_year_month_def
      init_tracking_def add_totals_Nil)

lemma calculate_sip_empty_weekly:
  "strptime_wday freq_val \<noteq> None \<Longrightarrow>
     calculate_sip tz [] amount ''weekly'' freq_val = Inl IndexError"
  by (auto simp: calculate_sip_def determine_investment_dates_def init_tracking_def)

text \<open>
  C5, as the code has it. An empty price history is refused by the caller: the
  processing step of \<open>main\<close> fails with the no-data error before the engine is
  called. \<open>calculate_sip\<close> itself does not test for an empty table: on zero rows a
  monthly schedule with an integer day returns a table of zero rows, and a weekly
  schedule with a recognised weekday name fails with an index error.
\<close>

theorem empty_series_handling:
  "main_process_data tz [] amount freq_type freq_val = Inl NoHistoricalData \<and>
   (py_int freq_val \<noteq> None \<longrightarrow> calculate_sip tz [] amount ''monthly'' freq_val = Inr []) \<and>
   (strptime_wday freq_val \<noteq> None \<longrightarrow>
      calculate_sip tz [] amount ''weekly'' freq_val = Inl IndexError)"
  using calculate_sip_empty_monthly calculate_sip_empty_weekly
  by (simp add: main_process_data_def)

theorem empty_series_handling_witness:
  "main_process_data (fixed_offset 0) [] 100 ''monthly'' ''1'' = Inl NoHistoricalData \<and>
   py_int ''1'' \<noteq> None \<and> calculate_sip (fixed_offset 0) [] 100 ''monthly'' ''1'' = Inr [] \<and>
   strptime_wday ''Monday'' \<noteq> None \<and>
   calculate_sip (fixed_offset 0) [] 100 ''weekly'' ''Monday'' = Inl IndexError"
proof -
  have p: "py_int ''1'' \<noteq> None" by code_simp
  have w: "strptime_wday ''Monday'' \<noteq> None" by code_simp
  from empty_series_handling[of "fixed_offset 0" 100 "''monthly''" "''1''"]
    empty_series_handling[of "fixed_offset 0" 100 "''weekly''" "''Monday''"] p w
  show ?thesis by simp
qed

text \<open>
  The claim as stated fails: given zero rows and a monthly schedule, \<open>calculate_sip\<close>
  returns a zero-length table as a success.
\<close>

theorem empty_series_counterexample:
  "calculate_sip (fixed_offset 0) [] 100 ''monthly'' ''1'' = Inr []"
  by code_simp










section \<open>Checks of the calendar and of the totality of the engine\<close>

lemma calendar_examples:
  "days_from_civil 1970 1 1 = 0"
  "civil_from_days 0 = (1970, 1, 1)"
  "civil_from_days (days_from_civil 2020 2 29) = (2020, 2, 29)"
  "civil_from_days (days_from_civil 2020 2 29 + 1) = (2020, 3, 1)"
  "civil_from_days (days_from_civil 2021 2 28 + 1) = (2021, 3, 1)"
  "civil_from_days (days_from_civil 1999 12 31 + 1) = (2000, 1, 1)"
  "weekday (days_from_civil 2021 3 1) = 0"
  "weekday (days_from_civil 2021 1 30) = 5"
  "weekday (days_from_civil 2021 2 28) = 6"
  "monthrange_days 2021 2 = 28"
  "monthrange_days 2020 2 = 29"
  "monthrange_days 1900 2 = 28"
  "monthrange_days 2000 2 = 29"
  by code_simp+

text \<open>The engine returns a table on every input with a valid schedule.\<close>

lemma calculate_sip_returns_monthly:
  assumes "py_int freq_val = Some day" and "1 \<le> day" and "day \<le> 31"
  shows "\<exists>rows. calculate_sip tz df amount ''monthly'' freq_val = Inr rows"
  using assms
  by (simp add: calculate_sip_def Let_def determine_investment_dates_def monthly_loop_valid)

lemma calculate_sip_returns_weekly:
  assumes "strptime_wday freq_val = Some w" and "dropna df \<noteq> []"
  shows "\<exists>rows. calculate_sip tz df amount ''weekly'' freq_val = Inr rows"
proof -
  from assms(2) have "map Date (init_tracking (dropna df)) \<noteq> []"
    by (simp add: map_Date_init_tracking)
  then obtain d ds where "map Date (init_tracking (dropna df)) = d # ds"
    by (cases "map Date (init_tracking (dropna df))") auto
  with assms(1) show ?thesis
    by (simp add: calculate_sip_def Let_def determine_investment_dates_def)
qed

end
